theory Spec2Isabelle
  imports Complex_Main
begin

section \<open>The converters of js/app.js\<close>

text \<open>
  The page arithmetic of \<^verbatim>\<open>js/app.js\<close> is carried out on JavaScript numbers. The model
  computes on exact rationals: every theorem below is a statement about the arithmetic
  the code writes down, not about the rounding of IEEE doubles. A division by zero,
  which JavaScript answers with \<^verbatim>\<open>Infinity\<close> or \<^verbatim>\<open>NaN\<close> and HOL with \<open>0\<close>, is
  a branch of its own in each function that divides (\<open>NonFinite\<close>), so no theorem rests
  on HOL's convention.

  Calls to \<^verbatim>\<open>setProgress\<close> only move the progress bar and are left out. The libraries
  (jsPDF, html2canvas) are not part of the repository: what they return (page size,
  canvas size, wrapped lines, decoded image size) is a parameter of the model, and the
  PDF document is the sequence of drawing calls the code makes on it.
\<close>

subsection \<open>File names\<close>

record js_file =
  name :: string

definition ACCEPTED_EXTENSIONS :: "string list" where
  "ACCEPTED_EXTENSIONS = [''.docx'', ''.txt'', ''.html'', ''.png'', ''.jpg'', ''.jpeg'']"

definition IMAGE_EXTENSIONS :: "string list" where
  "IMAGE_EXTENSIONS = [''.png'', ''.jpg'', ''.jpeg'']"

text \<open>
  \<^verbatim>\<open>xs.split(sep)\<close>: the segments between the separators, in order; a list without
  separator is its own single segment, so the result is never empty. The second branch
  of the \<open>case\<close> is unreachable (\<open>split_on_not_Nil\<close>).
\<close>

fun split_on :: "'a \<Rightarrow> 'a list \<Rightarrow> 'a list list" where
  "split_on sep [] = [[]]"
| "split_on sep (c # cs) =
     (if c = sep then [] # split_on sep cs
      else (case split_on sep cs of s # ss \<Rightarrow> (c # s) # ss | [] \<Rightarrow> [[c]]))"

text \<open>
  \<^verbatim>\<open>toLowerCase\<close> on one code unit. A name is a string of code units below 256
  (Latin-1): there the upper-case letters are A to Z and U+00C0 to U+00DE without the
  multiplication sign U+00D7, each 32 below its lower-case letter.
\<close>

definition toLowerCase_char :: "char \<Rightarrow> char" where
  "toLowerCase_char c =
     (let n = (of_char c :: nat)
      in if (65 \<le> n \<and> n \<le> 90) \<or> (192 \<le> n \<and> n \<le> 222 \<and> n \<noteq> 215)
         then char_of (n + 32) else c)"

definition toLowerCase :: "string \<Rightarrow> string" where
  "toLowerCase s = map toLowerCase_char s"

text \<open>\<^verbatim>\<open>'.' + file.name.split('.').pop().toLowerCase()\<close>; \<^verbatim>\<open>pop\<close> takes the last segment.\<close>

definition getExtension :: "js_file \<Rightarrow> string" where
  "getExtension f = ''.'' @ toLowerCase (last (split_on (CHR ''.'') (name f)))"

definition isValidFile :: "js_file \<Rightarrow> bool" where
  "isValidFile f = (getExtension f \<in> set ACCEPTED_EXTENSIONS)"

subsection \<open>The PDF document as the calls made on it\<close>

text \<open>
  An image handed to \<^verbatim>\<open>doc.addImage\<close> is either the uploaded file itself (\<open>Whole\<close>) or
  a strip that \<^verbatim>\<open>ctx.drawImage(canvas, sx, sy, sWidth, sHeight, 0, 0, sWidth, sHeight)\<close>
  cut out of the rendered canvas (\<open>Slice\<close>, with the source rectangle the code asks for).
\<close>

datatype image = Whole | Slice (sx: rat) (sy: rat) (sWidth: nat) (sHeight: int)

text \<open>
  \<^verbatim>\<open>doc.addPage()\<close>, \<^verbatim>\<open>doc.addImage(data, format, x, y, w, h)\<close> and
  \<^verbatim>\<open>doc.text(line, x, y)\<close>.
\<close>

datatype cmd =
    AddPage
  | AddImage image string rat rat rat rat
  | Text string rat rat

text \<open>
  What a converter does: it returns the blob of the document built by a sequence of
  calls, or its promise is rejected with \<^verbatim>\<open>new Error(message)\<close>, or a division by zero
  takes it out of the rational model.
\<close>

datatype result = Blob "cmd list" | Rejected string | NonFinite

text \<open>
  jsPDF's pages: a new document has one page, \<^verbatim>\<open>addPage\<close> appends a page and makes it
  the current one, every drawing call lands on the current page. So the pages of a call
  sequence are its segments between the \<open>AddPage\<close> calls.
\<close>

definition pages_of :: "cmd list \<Rightarrow> cmd list list" where
  "pages_of doc = split_on AddPage doc"

fun is_image :: "cmd \<Rightarrow> bool" where
  "is_image (AddImage _ _ _ _ _ _) = True"
| "is_image _ = False"


fun src_top :: "cmd \<Rightarrow> rat" where
  "src_top (AddImage (Slice _ y _ _) _ _ _ _ _) = y"
| "src_top _ = 0"

fun src_rows :: "cmd \<Rightarrow> int" where
  "src_rows (AddImage (Slice _ _ _ n) _ _ _ _ _) = n"
| "src_rows _ = 0"

fun line_of :: "cmd \<Rightarrow> string list" where
  "line_of (Text l _ _) = [l]"
| "line_of _ = []"

definition images :: "cmd list \<Rightarrow> cmd list" where
  "images doc = filter is_image doc"

subsection \<open>convertTxt\<close>

definition margin_txt :: rat where
  "margin_txt = 50"

definition lineHeight :: rat where
  "lineHeight = 15"

text \<open>
  The \<^verbatim>\<open>for\<close> loop over \<^verbatim>\<open>lines\<close>, with the document and \<^verbatim>\<open>y\<close> as its state.
\<close>

fun txt_loop :: "rat \<Rightarrow> string list \<Rightarrow> rat \<Rightarrow> cmd list \<Rightarrow> cmd list" where
  "txt_loop pageHeight [] y doc = doc"
| "txt_loop pageHeight (line # rest) y doc =
     (let (doc1, y1) =
            (if y + lineHeight > pageHeight - margin_txt
             then (doc @ [AddPage], margin_txt + 20)
             else (doc, y));
          doc2 = doc1 @ [Text line margin_txt y1]
      in txt_loop pageHeight rest (y1 + lineHeight) doc2)"

text \<open>
  \<^verbatim>\<open>doc.splitTextToSize\<close> is jsPDF's line wrapping under the current font; it is a
  parameter.
\<close>

definition convertTxt ::
  "(string \<Rightarrow> rat \<Rightarrow> string list) \<Rightarrow> rat \<Rightarrow> rat \<Rightarrow> string \<Rightarrow> result" where
  "convertTxt splitTextToSize pageWidth pageHeight text =
     (let maxWidth = pageWidth - margin_txt * 2;
          lines = splitTextToSize text maxWidth;
          y = margin_txt + 20
      in Blob (txt_loop pageHeight lines y []))"

subsection \<open>convertImage\<close>

definition margin_img :: rat where
  "margin_img = 40"

text \<open>
  Reading the file and decoding the image are the browser's: either fails, or the image
  loads with its \<^verbatim>\<open>naturalWidth\<close> and \<^verbatim>\<open>naturalHeight\<close>.
\<close>

datatype image_load = ReadFailed | LoadFailed | Loaded nat nat

text \<open>
  \<open>format\<close> is the string the code derives from the file's extension (\<^verbatim>\<open>'JPEG'\<close> for
  \<^verbatim>\<open>'JPG'\<close>); it is passed through to \<^verbatim>\<open>addImage\<close>.
\<close>

definition convertImage :: "rat \<Rightarrow> rat \<Rightarrow> string \<Rightarrow> image_load \<Rightarrow> result" where
  "convertImage pageWidth pageHeight format img =
     (case img of
        ReadFailed \<Rightarrow> Rejected ''Could not read file.''
      | LoadFailed \<Rightarrow> Rejected ''Could not load image.''
      | Loaded naturalWidth naturalHeight \<Rightarrow>
          if naturalWidth = 0 \<or> naturalHeight = 0 then NonFinite
          else
            let maxW = pageWidth - margin_img * 2;
                maxH = pageHeight - margin_img * 2;
                scale = min (min (maxW / of_nat naturalWidth) (maxH / of_nat naturalHeight)) 1;
                imgW = of_nat naturalWidth * scale;
                imgH = of_nat naturalHeight * scale;
                x = margin_img + (maxW - imgW) / 2;
                y = margin_img + (maxH - imgH) / 2
            in Blob [AddImage Whole format x y imgW imgH])"

subsection \<open>htmlStringToPdf\<close>

definition margin_html :: rat where
  "margin_html = 0"

text \<open>
  The \<^verbatim>\<open>while (remaining > 0)\<close> loop. It need not return: with \<open>pageHeight \<le> 0\<close> the
  remaining height never shrinks. \<open>None\<close> is the run that never returns.
  \<^verbatim>\<open>Math.round\<close> rounds to the nearest integer and a half upwards, as \<open>round\<close> does.
\<close>

partial_function (option) slice_loop ::
  "rat \<Rightarrow> rat \<Rightarrow> nat \<Rightarrow> rat \<Rightarrow> rat \<Rightarrow> rat \<Rightarrow> cmd list \<Rightarrow> cmd list option" where
  "slice_loop pageHeight ratio canvas_width imgW remaining srcY doc =
     (if remaining > 0 then
        let sliceH = min remaining pageHeight;
            slicePx = round (sliceH * ratio);
            slice = Slice 0 (srcY * ratio) canvas_width slicePx;
            doc1 = (if srcY > 0 then doc @ [AddPage] else doc);
            doc2 = doc1 @ [AddImage slice ''PNG'' margin_html margin_html imgW sliceH]
        in slice_loop pageHeight ratio canvas_width imgW
             (remaining - sliceH) (srcY + sliceH) doc2
      else Some doc)"

declare slice_loop.simps [code]

text \<open>
  \<open>pageWidth\<close> and \<open>pageHeight\<close> are what jsPDF reports for the page (595.28 and 841.89
  points for A4), \<open>canvas_width\<close> and \<open>canvas_height\<close> the pixel size of the canvas
  html2canvas returns.
\<close>

definition htmlStringToPdf :: "rat \<Rightarrow> rat \<Rightarrow> nat \<Rightarrow> nat \<Rightarrow> result option" where
  "htmlStringToPdf pageWidth pageHeight canvas_width canvas_height =
     (let imgW = pageWidth - margin_html * 2
      in if imgW = 0 then Some NonFinite
         else
           let ratio = of_nat canvas_width / imgW
           in if ratio = 0 then Some NonFinite
              else
                let imgH = of_nat canvas_height / ratio;
                    remaining = imgH;
                    srcY = 0
                in map_option Blob
                     (slice_loop pageHeight ratio canvas_width imgW remaining srcY []))"

subsection \<open>Properties of the output, as predicates\<close>

text \<open>
  The calls of the first \<open>n\<close> iterations of the slicing loop, started with the given
  remaining height and source offset.
\<close>

fun emitted :: "nat \<Rightarrow> rat \<Rightarrow> rat \<Rightarrow> nat \<Rightarrow> rat \<Rightarrow> rat \<Rightarrow> rat \<Rightarrow> cmd list" where
  "emitted 0 pageHeight ratio canvas_width imgW remaining srcY = []"
| "emitted (Suc n) pageHeight ratio canvas_width imgW remaining srcY =
     (let sliceH = min remaining pageHeight
      in (if srcY > 0 then [AddPage] else [])
         @ AddImage (Slice 0 (srcY * ratio) canvas_width (round (sliceH * ratio)))
             ''PNG'' margin_html margin_html imgW sliceH
         # emitted n pageHeight ratio canvas_width imgW (remaining - sliceH) (srcY + sliceH))"

text \<open>The calls a converter made, when it returned a document.\<close>

definition calls_of :: "result option \<Rightarrow> cmd list" where
  "calls_of r = (case r of Some (Blob doc) \<Rightarrow> doc | _ \<Rightarrow> [])"

text \<open>A call sequence that draws the given items with a new page before each but the first.\<close>

fun with_page_breaks :: "cmd list \<Rightarrow> cmd list" where
  "with_page_breaks [] = []"
| "with_page_breaks (c # cs) = c # concat (map (\<lambda>d. [AddPage, d]) cs)"



text \<open>The text lines drawn on a page.\<close>

definition page_lines :: "cmd list \<Rightarrow> string list" where
  "page_lines page = concat (map line_of page)"

text \<open>
  The layout of a text document, read off its calls. The state is the current page:
  the first page with no line yet, a later page with no line yet, or a page whose last
  line has the given baseline. A line on a fresh page has baseline \<open>margin + 20\<close>; a
  further line is one \<open>lineHeight\<close> lower and still fits (\<open>y + lineHeight\<close> does not
  exceed \<open>pageHeight - margin\<close>); a page is added only when the next line would not
  fit, and a line follows on it.
\<close>

datatype page_state = FirstFresh | Fresh | After rat

fun text_layout :: "rat \<Rightarrow> page_state \<Rightarrow> cmd list \<Rightarrow> bool" where
  "text_layout pageHeight st [] = (st \<noteq> Fresh)"
| "text_layout pageHeight st (Text l x y # cs) =
     (x = margin_txt
      \<and> (case st of
            FirstFresh \<Rightarrow> y = margin_txt + 20 \<and> y + lineHeight \<le> pageHeight - margin_txt
          | Fresh \<Rightarrow> y = margin_txt + 20
          | After p \<Rightarrow> y = p + lineHeight \<and> y + lineHeight \<le> pageHeight - margin_txt)
      \<and> text_layout pageHeight (After y) cs)"
| "text_layout pageHeight st (AddPage # cs) =
     ((case st of
         FirstFresh \<Rightarrow> margin_txt + 20 + lineHeight > pageHeight - margin_txt
       | Fresh \<Rightarrow> False
       | After p \<Rightarrow> p + lineHeight + lineHeight > pageHeight - margin_txt)
      \<and> text_layout pageHeight Fresh cs)"
| "text_layout pageHeight st (AddImage _ _ _ _ _ _ # cs) = False"

text \<open>A stand-in for jsPDF's line wrapping, used at concrete inputs: one line per character.\<close>

definition split_chars :: "string \<Rightarrow> rat \<Rightarrow> string list" where
  "split_chars text maxWidth = map (\<lambda>c. [c]) text"

section \<open>Lemmas\<close>

lemma split_on_not_Nil: "split_on sep xs \<noteq> []"
  by (induction xs) (auto split: list.splits)

lemma split_on_no_sep: "sep \<notin> set xs \<Longrightarrow> split_on sep xs = [xs]"
  by (induction xs) auto

lemma accepted_dot: "ext \<in> set ACCEPTED_EXTENSIONS \<Longrightarrow> ''.'' @ tl ext = ext"
  by (auto simp: ACCEPTED_EXTENSIONS_def)

section \<open>File-type validation\<close>

text \<open>
  C10. A name without a dot is its own last segment, so its extension is a dot followed
  by the whole lower-cased name; when that lower-cased name is a supported extension
  without its dot (\<open>txt\<close>, \<open>png\<close>, ...), the file is accepted.
\<close>

theorem dotless_name_accepted:
  assumes "CHR ''.'' \<notin> set (name f)"
    and "ext \<in> set ACCEPTED_EXTENSIONS"
    and "toLowerCase (name f) = tl ext"
  shows "getExtension f = ''.'' @ toLowerCase (name f) \<and> isValidFile f"
proof -
  have seg: "last (split_on (CHR ''.'') (name f)) = name f"
    using assms(1) by (simp add: split_on_no_sep)
  have ext: "getExtension f = ''.'' @ toLowerCase (name f)"
    by (simp add: getExtension_def seg)
  have "getExtension f = ext"
    using ext assms(2,3) accepted_dot [of ext] by simp
  then show ?thesis
    using ext assms(2) by (simp add: isValidFile_def)
qed

theorem dotless_name_accepted_witness:
  "CHR ''.'' \<notin> set (name \<lparr>name = ''PNG''\<rparr>)
   \<and> ''.png'' \<in> set ACCEPTED_EXTENSIONS
   \<and> toLowerCase (name \<lparr>name = ''PNG''\<rparr>) = tl ''.png''
   \<and> getExtension \<lparr>name = ''PNG''\<rparr> = ''.png''
   \<and> isValidFile \<lparr>name = ''PNG''\<rparr>"
proof -
  have h1: "CHR ''.'' \<notin> set (name \<lparr>name = ''PNG''\<rparr>)" by simp
  have h2: "''.png'' \<in> set ACCEPTED_EXTENSIONS" by (simp add: ACCEPTED_EXTENSIONS_def)
  have h3: "toLowerCase (name \<lparr>name = ''PNG''\<rparr>) = tl ''.png''" by code_simp
  show ?thesis
    using h1 h2 h3 dotless_name_accepted [OF h1 h2 h3] by simp
qed

section \<open>The text paginator\<close>

lemma txt_loop_append: "txt_loop ph ls y doc = doc @ txt_loop ph ls y []"
proof (induction ls arbitrary: y doc)
  case Nil
  show ?case by simp
next
  case (Cons l ls)
  show ?case
    by (simp add: Cons.IH [of _ "doc @ _"] Cons.IH [of _ "[_]"] Cons.IH [of _ "[_, _]"] Let_def)
qed

lemma lines_split_on: "concat (map page_lines (split_on AddPage doc)) = concat (map line_of doc)"
proof (induction doc)
  case Nil
  show ?case by (simp add: page_lines_def)
next
  case (Cons c cs)
  obtain s ss where s: "split_on AddPage cs = s # ss"
    using split_on_not_Nil [of AddPage cs] by (cases "split_on AddPage cs") auto
  show ?case
    using Cons.IH by (cases "c = AddPage") (auto simp: s page_lines_def)
qed

lemma txt_loop_lines:
  "concat (map line_of (txt_loop ph ls y doc)) = concat (map line_of doc) @ ls"
  by (induction ls arbitrary: y doc) (simp_all add: Let_def)

lemma text_layout_loop:
  assumes "(st = FirstFresh \<and> y = margin_txt + 20) \<or> (\<exists>p. st = After p \<and> y = p + lineHeight)"
  shows "text_layout ph st (txt_loop ph ls y [])"
  using assms
proof (induction ls arbitrary: st y)
  case Nil
  then show ?case by auto
next
  case (Cons l ls)
  show ?case
  proof (cases "y + lineHeight > ph - margin_txt")
    case True
    have rest: "text_layout ph (After (margin_txt + 20))
                  (txt_loop ph ls (margin_txt + 20 + lineHeight) [])"
      by (rule Cons.IH) simp
    have "txt_loop ph (l # ls) y [] =
        AddPage # Text l margin_txt (margin_txt + 20)
          # txt_loop ph ls (margin_txt + 20 + lineHeight) []"
      using True txt_loop_append [of ph ls _ "[AddPage, Text l margin_txt (margin_txt + 20)]"]
      by simp
    then show ?thesis
      using True rest Cons.prems by auto
  next
    case False
    have rest: "text_layout ph (After y) (txt_loop ph ls (y + lineHeight) [])"
      by (rule Cons.IH) simp
    have "txt_loop ph (l # ls) y [] = Text l margin_txt y # txt_loop ph ls (y + lineHeight) []"
      using False txt_loop_append [of ph ls _ "[Text l margin_txt y]"] by simp
    then show ?thesis
      using False rest Cons.prems by auto
  qed
qed

text \<open>
  C4, as the claim states it, fails: the first baseline of a page is \<open>margin + 20 = 70\<close>,
  not top margin plus line height (\<open>50 + 15 = 65\<close>). A text of one line is drawn at 70.
\<close>

theorem first_baseline_counterexample:
  "convertTxt split_chars 595 842 ''a'' = Blob [Text ''a'' margin_txt 70]
   \<and> (70 :: rat) \<noteq> margin_txt + lineHeight"
  by (simp add: convertTxt_def split_chars_def margin_txt_def lineHeight_def)

text \<open>
  C4, amended. The first line of every page has baseline \<open>margin + 20\<close>; every further
  line of a page is one \<open>lineHeight\<close> below the line before it and is placed only if
  \<open>y + lineHeight\<close> does not exceed \<open>pageHeight - margin\<close>; a page is added exactly
  before a line that would not fit, and that line is drawn on the new page at
  \<open>margin + 20\<close>.
\<close>

theorem text_layout_convertTxt:
  "\<exists>doc. convertTxt splitTextToSize pageWidth pageHeight text = Blob doc
     \<and> text_layout pageHeight FirstFresh doc"
  by (simp add: convertTxt_def text_layout_loop)

text \<open>
  C5. The lines drawn on the pages of the document, page after page, are the wrapped
  lines of the text, each once and in order; a line is one \<open>Text\<close> call, so it lies on
  one page.
\<close>

theorem text_lines_preserved:
  "\<exists>doc. convertTxt splitTextToSize pageWidth pageHeight text = Blob doc
     \<and> concat (map page_lines (pages_of doc))
         = splitTextToSize text (pageWidth - margin_txt * 2)"
  by (simp add: convertTxt_def pages_of_def lines_split_on txt_loop_lines)

section \<open>The slicing loop of htmlStringToPdf\<close>

text \<open>
  With a positive page height the loop returns after \<open>\<lceil>remaining / pageHeight\<rceil>\<close>
  iterations, and its calls are those of \<open>emitted\<close>.
\<close>

lemma ceil_step:
  fixes r ph :: rat
  assumes "0 < ph" and "Suc n = nat \<lceil>r / ph\<rceil>"
  shows "0 < r" and "n = nat \<lceil>(r - min r ph) / ph\<rceil>"
proof -
  have pos: "0 < \<lceil>r / ph\<rceil>" using assms(2) by linarith
  then have "0 < r / ph" by simp
  then show r: "0 < r" using assms(1) by (simp add: zero_less_divide_iff)
  show "n = nat \<lceil>(r - min r ph) / ph\<rceil>"
  proof (cases "r \<le> ph")
    case True
    then have "r / ph \<le> 1" using assms(1) by (simp add: pos_divide_le_eq)
    then have "\<lceil>r / ph\<rceil> \<le> 1" by (simp add: ceiling_le_one)
    then have "n = 0" using assms(2) by linarith
    then show ?thesis using True by (simp add: min_def)
  next
    case False
    then have "(r - min r ph) / ph = r / ph - 1"
      using assms(1) by (simp add: min_def diff_divide_distrib)
    then have "\<lceil>(r - min r ph) / ph\<rceil> = \<lceil>r / ph\<rceil> - 1" by simp
    then show ?thesis using assms(2) by linarith
  qed
qed

lemma slice_loop_emitted:
  assumes "0 < ph"
  shows "n = nat \<lceil>r / ph\<rceil> \<Longrightarrow>
    slice_loop ph ratio cw imgW r s doc = Some (doc @ emitted n ph ratio cw imgW r s)"
proof (induction n arbitrary: r s doc)
  case 0
  then have "\<lceil>r / ph\<rceil> \<le> 0" by simp
  then have "r / ph \<le> 0" by (simp add: ceiling_le_zero)
  then have "\<not> 0 < r" using assms by (simp add: divide_le_0_iff)
  then show ?case by (subst slice_loop.simps) simp
next
  case (Suc n)
  note st = ceil_step [OF assms Suc.prems]
  show ?case
    by (subst slice_loop.simps) (simp add: st(1) Let_def Suc.IH [OF st(2)])
qed

lemma htmlStringToPdf_emitted:
  assumes "0 < pw" and "0 < ph" and "0 < cw"
    and "H = of_nat ch / (of_nat cw / pw)"
  shows "htmlStringToPdf pw ph cw ch
         = Some (Blob (emitted (nat \<lceil>H / ph\<rceil>) ph (of_nat cw / pw) cw pw H 0))"
proof -
  have "of_nat cw / pw \<noteq> 0" using assms(1,3) by simp
  then show ?thesis
    using assms(1,4) slice_loop_emitted [OF assms(2) refl, of "of_nat cw / pw" cw pw H 0 "[]"]
    by (simp add: htmlStringToPdf_def margin_html_def)
qed

lemma emitted_count: "length (images (emitted n ph ratio cw imgW r s)) = n"
  by (induction n arbitrary: r s) (simp_all add: images_def Let_def)


lemma emitted_breaks:
  assumes "0 < ph"
  shows "n = nat \<lceil>r / ph\<rceil> \<Longrightarrow> 0 < s \<Longrightarrow>
    emitted n ph ratio cw imgW r s
      = concat (map (\<lambda>d. [AddPage, d]) (images (emitted n ph ratio cw imgW r s)))"
proof (induction n arbitrary: r s)
  case 0
  show ?case by (simp add: images_def)
next
  case (Suc n)
  note st = ceil_step [OF assms Suc.prems(1)]
  have "0 < s + min r ph" using st(1) assms Suc.prems(2) by simp
  from Suc.IH [OF st(2) this] Suc.prems(2)
  show ?case by (simp add: images_def Let_def)
qed

lemma emitted_first_page:
  assumes "0 < ph" and "n = nat \<lceil>r / ph\<rceil>"
  shows "emitted n ph ratio cw imgW r 0
           = with_page_breaks (images (emitted n ph ratio cw imgW r 0))"
proof (cases n)
  case 0
  then show ?thesis by (simp add: images_def)
next
  case (Suc m)
  note st = ceil_step [OF assms(1) assms(2) [unfolded Suc]]
  have "0 < 0 + min r ph" using st(1) assms(1) by simp
  from emitted_breaks [OF assms(1) st(2) this, of ratio cw imgW]
  show ?thesis by (simp add: Suc images_def Let_def)
qed

lemma emitted_src_top:
  assumes "0 < ph" and "0 < ratio"
  shows "n = nat \<lceil>r / ph\<rceil> \<Longrightarrow>
    sorted_wrt (<) (map src_top (images (emitted n ph ratio cw imgW r s)))
    \<and> (\<forall>c \<in> set (images (emitted n ph ratio cw imgW r s)). s * ratio \<le> src_top c)"
proof (induction n arbitrary: r s)
  case 0
  show ?case by (simp add: images_def)
next
  case (Suc n)
  note st = ceil_step [OF assms(1) Suc.prems(1)]
  have lt: "s * ratio < (s + min r ph) * ratio"
    using st(1) assms by (simp add: distrib_right)
  from Suc.IH [OF st(2), of "s + min r ph"] lt
  show ?case by (fastforce simp: images_def Let_def)
qed

lemma split_on_breaks:
  "AddPage \<notin> set cs \<Longrightarrow>
     split_on AddPage (concat (map (\<lambda>d. [AddPage, d]) cs)) = [] # map (\<lambda>d. [d]) cs"
  by (induction cs) auto

lemma pages_of_breaks:
  assumes "cs \<noteq> []" and "AddPage \<notin> set cs"
  shows "pages_of (with_page_breaks cs) = map (\<lambda>d. [d]) cs"
proof (cases cs)
  case Nil
  with assms(1) show ?thesis by simp
next
  case (Cons c rest)
  then have "c \<noteq> AddPage" "AddPage \<notin> set rest" using assms(2) by auto
  then show ?thesis by (simp add: Cons pages_of_def split_on_breaks)
qed

lemma images_no_AddPage: "AddPage \<notin> set (images doc)"
  by (auto simp: images_def)


text \<open>With a page height that is not positive, a loop that is entered never returns.\<close>

lemma slice_loop_returns_only:
  assumes "slice_loop ph ratio cw imgW r s doc = Some d"
  shows "0 < ph \<or> r \<le> 0"
proof (rule slice_loop.raw_induct
    [where P = "\<lambda>ph ratio cw imgW r s doc d. 0 < ph \<or> r \<le> (0::rat)", OF _ assms])
  fix f :: "rat \<Rightarrow> rat \<Rightarrow> nat \<Rightarrow> rat \<Rightarrow> rat \<Rightarrow> rat \<Rightarrow> cmd list \<Rightarrow> cmd list option"
  fix ph ratio cw imgW r s doc d
  assume IH: "\<And>ph ratio cw imgW r s doc d.
      f ph ratio cw imgW r s doc = Some d \<Longrightarrow> 0 < ph \<or> r \<le> 0"
  assume body: "(if 0 < r then
        let sliceH = min r ph;
            slicePx = round (sliceH * ratio);
            slice = Slice 0 (s * ratio) cw slicePx;
            doc1 = (if 0 < s then doc @ [AddPage] else doc);
            doc2 = doc1 @ [AddImage slice ''PNG'' margin_html margin_html imgW sliceH]
        in f ph ratio cw imgW (r - sliceH) (s + sliceH) doc2
      else Some doc) = Some d"
  show "0 < ph \<or> r \<le> 0"
  proof (rule ccontr)
    assume "\<not> (0 < ph \<or> r \<le> 0)"
    then have ph: "ph \<le> 0" and r: "0 < r" by simp_all
    then have m: "min r ph = ph" by simp
    from body r m
    have "f ph ratio cw imgW (r - ph) (s + ph)
            ((if 0 < s then doc @ [AddPage] else doc)
               @ [AddImage (Slice 0 (s * ratio) cw (round (ph * ratio))) ''PNG''
                    margin_html margin_html imgW ph]) = Some d"
      by (simp add: Let_def)
    from IH [OF this] ph r show False by simp
  qed
qed

lemma slice_loop_diverges:
  assumes "ph \<le> 0" and "0 < r"
  shows "slice_loop ph ratio cw imgW r s doc = None"
proof (cases "slice_loop ph ratio cw imgW r s doc")
  case None
  then show ?thesis .
next
  case (Some d)
  from slice_loop_returns_only [OF this] assms show ?thesis by simp
qed

text \<open>
  The scenario of the specification: a page of 595 by 842 points, a canvas of 794 by 3000
  pixels. The image is 3000 / (794 / 595), about 2248.1, points high.
\<close>

lemma scenario_emitted:
  "emitted 3 842 (794 / 595) 794 595 (892500 / 397) 0 =
       [AddImage (Slice 0 0 794 1124) ''PNG'' 0 0 595 842,
        AddPage,
        AddImage (Slice 0 (842 * (794 / 595)) 794 1124) ''PNG'' 0 0 595 842,
        AddPage,
        AddImage (Slice 0 (1684 * (794 / 595)) 794 753) ''PNG'' 0 0 595 (3000 / (794 / 595) - 1684)]"
proof -
  have f1: "\<lfloor>1337691 / 1190 :: rat\<rfloor> = 1124" by (simp add: floor_eq_iff)
  have f2: "\<lfloor>896403 / 1190 :: rat\<rfloor> = 753" by (simp add: floor_eq_iff)
  show ?thesis
    by (simp add: numeral_3_eq_3 Let_def margin_html_def round_def f1 f2)
qed

lemma scenario_run:
  "htmlStringToPdf 595 842 794 3000 =
     Some (Blob
       [AddImage (Slice 0 0 794 1124) ''PNG'' 0 0 595 842,
        AddPage,
        AddImage (Slice 0 (842 * (794 / 595)) 794 1124) ''PNG'' 0 0 595 842,
        AddPage,
        AddImage (Slice 0 (1684 * (794 / 595)) 794 753) ''PNG'' 0 0 595 (3000 / (794 / 595) - 1684)])"
proof -
  have H: "(892500 / 397 :: rat) = of_nat 3000 / (of_nat 794 / 595)" by simp
  have "\<lceil>(892500 / 397 :: rat) / 842\<rceil> = 3" by (simp add: ceiling_eq_iff)
  then have c: "nat \<lceil>(892500 / 397 :: rat) / 842\<rceil> = 3" by simp
  have "htmlStringToPdf 595 842 794 3000
        = Some (Blob (emitted (nat \<lceil>(892500 / 397 :: rat) / 842\<rceil>) 842 (of_nat 794 / 595) 794 595 (892500 / 397) 0))"
    by (rule htmlStringToPdf_emitted [OF _ _ _ H]) simp_all
  then show ?thesis unfolding c by (simp add: scenario_emitted)
qed

section \<open>The image paginator\<close>






text \<open>
  C3, as the claim states it, fails: the scenario gives 3 slices, not 4, and the last one
  is 753 pixel rows high, not 474. The page height of 842 is in points, the image height
  of 3000 in pixels; the loop compares the page height with the image height in points.
\<close>

theorem scenario_counterexample:
  "length (images (calls_of (htmlStringToPdf 595 842 794 3000))) \<noteq> 4
   \<and> src_rows (last (images (calls_of (htmlStringToPdf 595 842 794 3000)))) \<noteq> 474"
  by (simp add: scenario_run calls_of_def images_def)

text \<open>
  C3, amended. In the scenario the ratio is 794 / 595, and the function emits exactly 3
  slices, of 1124, 1124 and 753 pixel rows; the last is 3000 / (794 / 595) - 2 * 842,
  about 564.1, points high on its page.
\<close>

theorem scenario_slices:
  "htmlStringToPdf 595 842 794 3000 =
     Some (Blob
       [AddImage (Slice 0 0 794 1124) ''PNG'' 0 0 595 842,
        AddPage,
        AddImage (Slice 0 (842 * (794 / 595)) 794 1124) ''PNG'' 0 0 595 842,
        AddPage,
        AddImage (Slice 0 (1684 * (794 / 595)) 794 753) ''PNG'' 0 0 595
          (3000 / (794 / 595) - 1684)])
   \<and> length (images (calls_of (htmlStringToPdf 595 842 794 3000))) = 3
   \<and> src_rows (last (images (calls_of (htmlStringToPdf 595 842 794 3000)))) = 753"
  by (simp add: scenario_run calls_of_def images_def)

text \<open>
  C7. The slices are emitted by increasing source offset; the document is its slices with
  one \<open>AddPage\<close> before each but the first; and page \<open>i\<close> of the document holds exactly
  slice \<open>i\<close>.
\<close>

theorem slices_in_page_order:
  assumes "0 < pageWidth" and "0 < pageHeight" and "0 < canvas_width" and "0 < canvas_height"
  shows "\<exists>doc. htmlStringToPdf pageWidth pageHeight canvas_width canvas_height = Some (Blob doc)
           \<and> doc = with_page_breaks (images doc)
           \<and> sorted_wrt (<) (map src_top (images doc))
           \<and> pages_of doc = map (\<lambda>c. [c]) (images doc)"
proof -
  define ratio :: rat where "ratio = of_nat canvas_width / pageWidth"
  define H :: rat where "H = of_nat canvas_height / ratio"
  define doc where
    "doc = emitted (nat \<lceil>H / pageHeight\<rceil>) pageHeight ratio canvas_width pageWidth H 0"
  have ratio: "0 < ratio" using assms(1,3) by (simp add: ratio_def)
  have H: "0 < H" using assms(4) ratio by (simp add: H_def)
  have run: "htmlStringToPdf pageWidth pageHeight canvas_width canvas_height = Some (Blob doc)"
    unfolding doc_def ratio_def
    by (rule htmlStringToPdf_emitted [OF assms(1-3)]) (simp add: H_def ratio_def)
  have breaks: "doc = with_page_breaks (images doc)"
    unfolding doc_def by (rule emitted_first_page [OF assms(2) refl])
  have order: "sorted_wrt (<) (map src_top (images doc))"
    unfolding doc_def using emitted_src_top [OF assms(2) ratio refl] by blast
  have "0 < H / pageHeight" using H assms(2) by simp
  then have "0 < nat \<lceil>H / pageHeight\<rceil>" by simp
  then have "images doc \<noteq> []"
    using emitted_count [of "nat \<lceil>H / pageHeight\<rceil>" pageHeight ratio canvas_width pageWidth H 0]
    unfolding doc_def by auto
  then have "pages_of (with_page_breaks (images doc)) = map (\<lambda>c. [c]) (images doc)"
    by (rule pages_of_breaks) (rule images_no_AddPage)
  then have pages: "pages_of doc = map (\<lambda>c. [c]) (images doc)"
    using breaks by simp
  show ?thesis using run breaks order pages by blast
qed

theorem slices_in_page_order_witness:
  "(0::rat) < 595 \<and> (0::rat) < 842 \<and> (0::nat) < 794 \<and> (0::nat) < 3000
   \<and> (\<exists>doc. htmlStringToPdf 595 842 794 3000 = Some (Blob doc)
         \<and> doc = with_page_breaks (images doc)
         \<and> sorted_wrt (<) (map src_top (images doc))
         \<and> pages_of doc = map (\<lambda>c. [c]) (images doc))"
  using slices_in_page_order [of 595 842 794 3000] by simp




section \<open>The single image\<close>

text \<open>
  C6. An image of positive size is scaled by the least of usable width over image width,
  usable height over image height, and 1, so it is never enlarged; it is drawn once,
  centred in the usable area (margin 40 on every side).
\<close>

theorem image_scaled_to_fit:
  assumes "0 < naturalWidth" and "0 < naturalHeight"
    and "scale = min (min ((pageWidth - 80) / of_nat naturalWidth)
                          ((pageHeight - 80) / of_nat naturalHeight)) 1"
    and "w = of_nat naturalWidth * scale" and "h = of_nat naturalHeight * scale"
  shows "convertImage pageWidth pageHeight format (Loaded naturalWidth naturalHeight)
           = Blob [AddImage Whole format (40 + ((pageWidth - 80) - w) / 2)
                     (40 + ((pageHeight - 80) - h) / 2) w h]
         \<and> scale \<le> 1 \<and> w \<le> of_nat naturalWidth \<and> h \<le> of_nat naturalHeight"
proof -
  have s1: "scale \<le> 1" using assms(3) by simp
  have w: "w \<le> of_nat naturalWidth"
    using s1 assms(1,4) by (simp add: mult_le_cancel_left1)
  have h: "h \<le> of_nat naturalHeight"
    using s1 assms(2,5) by (simp add: mult_le_cancel_left1)
  have "convertImage pageWidth pageHeight format (Loaded naturalWidth naturalHeight)
           = Blob [AddImage Whole format (40 + ((pageWidth - 80) - w) / 2)
                     (40 + ((pageHeight - 80) - h) / 2) w h]"
    using assms by (simp add: convertImage_def margin_img_def Let_def)
  then show ?thesis using s1 w h by simp
qed

theorem image_scaled_to_fit_witness:
  "(0::nat) < 1030 \<and> (0::nat) < 381
   \<and> (1/2 :: rat) = min (min ((595 - 80) / of_nat 1030) ((842 - 80) / of_nat 381)) 1
   \<and> convertImage 595 842 ''PNG'' (Loaded 1030 381)
        = Blob [AddImage Whole ''PNG'' 40 (40 + ((842 - 80) - 381 / 2) / 2) 515 (381 / 2)]"
proof -
  have s: "(1/2 :: rat) = min (min ((595 - 80) / of_nat 1030) ((842 - 80) / of_nat 381)) 1"
    by simp
  show ?thesis
    using s image_scaled_to_fit [of 1030 381 "1/2" 595 842 515 "381 / 2" "''PNG''", OF _ _ s]
    by simp
qed

section \<open>Determinism\<close>



end
